theory Spec2Isabelle
  imports Main "HOL-Library.Word" "HOL-Library.Multiset" "HOL-Library.Sublist"
begin

section \<open>The number service: data model\<close>

text \<open>
  The service stores integers in the table \<^verbatim>\<open>numbers\<close> of a relational store and answers
  every request with the stored values in ascending order. The handler \<^verbatim>\<open>AddNumber\<close> and
  the two SQL statements it runs are embedded below.

  Go's \<^verbatim>\<open>int\<close> is 64 bits wide on the platform the service is built for
  (\<^verbatim>\<open>GOARCH=amd64\<close> in the container build), \<^verbatim>\<open>int32\<close> is 32 bits wide, and the column
  \<^verbatim>\<open>id\<close> is a 128-bit UUID.
\<close>

type_synonym int64 = "64 word"
type_synonym int32 = "32 word"
type_synonym uuid = "128 word"

text \<open>
  A row of the table \<^verbatim>\<open>numbers\<close>:
  \<^verbatim>\<open>id uuid primary key default uuid_generate_v4(), number integer not null\<close>.
  The handler reads the second column as \<^verbatim>\<open>num.Number\<close>.
\<close>

record Number =
  ID :: uuid
  Number :: int32

text \<open>
  A Go \<^verbatim>\<open>error\<close> returned by the database driver. The handler only formats it with
  \<^verbatim>\<open>%v\<close>, which prints the text of \<^verbatim>\<open>err.Error()\<close>. A write that the store rejects
  because the generated identifier is already a primary key is an error of its own.
\<close>

datatype error = StoreError string | UniqueViolation

fun Error :: "error \<Rightarrow> string" where
  "Error (StoreError msg) = msg"
| "Error UniqueViolation = ''duplicate key value violates unique constraint''"

text \<open>The statements that reach the store, in the order they are issued.\<close>

datatype statement = InsertNumberStmt int32 | GetAllNumbersSortedStmt

text \<open>
  The store: the rows of the table \<^verbatim>\<open>numbers\<close> in storage order (a row is appended by an
  insert), and the log of the statements executed against it. The log is what makes
  "the read is not invoked" and "the insert is not retried" properties of the model.
\<close>

record db =
  tbl_numbers :: "Number list"
  executed :: "statement list"

definition empty_db :: db where
  "empty_db = \<lparr>tbl_numbers = [], executed = []\<rparr>"

section \<open>The query layer\<close>

text \<open>
  \<^verbatim>\<open>INSERT INTO numbers (number) VALUES ($1) RETURNING id, number\<close>.
  What the program does not decide is a parameter: \<open>fault\<close> is the error of a store that
  is unreachable or refuses the statement (\<open>None\<close> when it answers), \<open>u\<close> is the identifier
  that \<^verbatim>\<open>uuid_generate_v4()\<close> draws. The primary key rejects an identifier that a stored
  row already has. A failed statement leaves the table as it was.
\<close>

definition InsertNumber :: "error option \<Rightarrow> uuid \<Rightarrow> db \<Rightarrow> int32 \<Rightarrow> (error + Number) \<times> db" where
  "InsertNumber fault u d n =
     (let d' = d\<lparr>executed := executed d @ [InsertNumberStmt n]\<rparr> in
      case fault of
        Some e \<Rightarrow> (Inl e, d')
      | None \<Rightarrow>
          if u \<in> set (map ID (tbl_numbers d)) then (Inl UniqueViolation, d')
          else (let r = \<lparr>ID = u, Number = n\<rparr>
                in (Inr r, d'\<lparr>tbl_numbers := tbl_numbers d @ [r]\<rparr>)))"

text \<open>
  \<^verbatim>\<open>SELECT id, number FROM numbers ORDER BY number ASC\<close>.
  The column is a signed 32-bit integer, so the order is the one of \<open>sint\<close>. SQL leaves the
  order of rows with equal numbers open: it is the order in which the engine happens to
  reach them. That order is the parameter \<open>tie\<close>, a rank of the rows; rows of equal number
  come out by rank, and rows of equal number and rank in storage order.
\<close>

definition order_by_number :: "(Number \<Rightarrow> nat) \<Rightarrow> Number list \<Rightarrow> Number list" where
  "order_by_number tie rows = sort_key (\<lambda>r. sint (Number r)) (sort_key tie rows)"

text \<open>
  Two of the orders an engine may follow among rows of equal number: the order of
  storage (every row has the same rank), and the order of the identifiers.
\<close>

definition storage_order :: "Number \<Rightarrow> nat" where
  "storage_order r = 0"

definition id_order :: "Number \<Rightarrow> nat" where
  "id_order r = unat (ID r)"

text \<open>
  The read fails with the error of the store or returns the ordered rows. A \<^verbatim>\<open>SELECT\<close>
  writes nothing.
\<close>

definition GetAllNumbersSorted ::
  "error option \<Rightarrow> (Number \<Rightarrow> nat) \<Rightarrow> db \<Rightarrow> (error + Number list) \<times> db" where
  "GetAllNumbersSorted fault tie d =
     (let d' = d\<lparr>executed := executed d @ [GetAllNumbersSortedStmt]\<rparr> in
      case fault of
        Some e \<Rightarrow> (Inl e, d')
      | None \<Rightarrow> (Inr (order_by_number tie (tbl_numbers d)), d'))"

text \<open>
  \<^verbatim>\<open>DELETE FROM numbers\<close>, which only the test fixture \<^verbatim>\<open>clearDatabase\<close> issues.
\<close>

definition clearDatabase :: "db \<Rightarrow> db" where
  "clearDatabase d = d\<lparr>tbl_numbers := []\<rparr>"

section \<open>The request handler\<close>

text \<open>
  The two response objects of the operation. \<^verbatim>\<open>AddNumber200JSONResponse\<close> carries the
  slice \<^verbatim>\<open>Numbers\<close> of Go \<^verbatim>\<open>int\<close>s, \<^verbatim>\<open>AddNumber500JSONResponse\<close> the text \<^verbatim>\<open>Error\<close>.
\<close>

datatype AddNumberResponseObject =
  AddNumber200JSONResponse "int64 list"
| AddNumber500JSONResponse string

text \<open>
  Modelled from the spec: the generated package \<^verbatim>\<open>api\<close>, which writes the status line of
  a response object, is not part of the sources. The spec gives status 200 to the success
  response and status 500 to the failure response.
\<close>

fun StatusCode :: "AddNumberResponseObject \<Rightarrow> nat" where
  "StatusCode (AddNumber200JSONResponse _) = 200"
| "StatusCode (AddNumber500JSONResponse _) = 500"

text \<open>
  Go's conversions between integer types: \<^verbatim>\<open>int32(x)\<close> of an \<^verbatim>\<open>int\<close> keeps the low 32
  bits, \<^verbatim>\<open>int(x)\<close> of an \<^verbatim>\<open>int32\<close> extends the sign.
\<close>

definition to_int32 :: "int64 \<Rightarrow> int32" where
  "to_int32 x = ucast x"

definition to_int :: "int32 \<Rightarrow> int64" where
  "to_int x = scast x"

text \<open>
  What the outside world decides during one request: the outcome of the insert, the
  identifier drawn for the new row, the outcome of the read, and the order in which the
  read reaches rows of equal number.
\<close>

record world =
  insert_fault :: "error option"
  fresh_id :: uuid
  select_fault :: "error option"
  row_order :: "Number \<Rightarrow> nat"

text \<open>
  The world in which the store answers both statements of a request: no fault, the
  identifier \<open>u\<close> for the new row, rows of equal number reached in storage order.
\<close>

definition quiet :: "uuid \<Rightarrow> world" where
  "quiet u = \<lparr>insert_fault = None, fresh_id = u, select_fault = None, row_order = (\<lambda>_. 0)\<rparr>"

text \<open>
  \<^verbatim>\<open>func (s *Server) AddNumber(ctx, request) (api.AddNumberResponseObject, error)\<close>.
  The result is the pair the Go function returns (the response object and the handler's
  own error, which is \<^verbatim>\<open>nil\<close> on every path) and the store after the call.
\<close>

definition AddNumber :: "world \<Rightarrow> db \<Rightarrow> int64 \<Rightarrow> (AddNumberResponseObject \<times> error option) \<times> db" where
  "AddNumber w d number =
     (case InsertNumber (insert_fault w) (fresh_id w) d (to_int32 number) of
        (Inl err, d1) \<Rightarrow>
          ((AddNumber500JSONResponse (''failed to insert number: '' @ Error err), None), d1)
      | (Inr _, d1) \<Rightarrow>
          (case GetAllNumbersSorted (select_fault w) (row_order w) d1 of
             (Inl err, d2) \<Rightarrow>
               ((AddNumber500JSONResponse (''failed to get numbers: '' @ Error err), None), d2)
           | (Inr numbers, d2) \<Rightarrow>
               ((AddNumber200JSONResponse (map (\<lambda>num. to_int (Number num)) numbers), None),
                d2)))"

text \<open>
  Requests handled one after the other: each is a world and the number of the request.
  The result is the list of what the handler returned and the store at the end.
\<close>

fun serve :: "(world \<times> int64) list \<Rightarrow> db \<Rightarrow> (AddNumberResponseObject \<times> error option) list \<times> db" where
  "serve [] d = ([], d)"
| "serve ((w, number) # reqs) d =
     (case AddNumber w d number of
        (resp, d1) \<Rightarrow> (case serve reqs d1 of (resps, d2) \<Rightarrow> (resp # resps, d2)))"

section \<open>Start-up\<close>

text \<open>
  The process environment is a map from names to values; \<^verbatim>\<open>os.Getenv\<close> gives the empty
  string for a name that is not set.
\<close>

type_synonym environ = "string \<rightharpoonup> string"

definition os_Getenv :: "environ \<Rightarrow> string \<Rightarrow> string" where
  "os_Getenv env key = (case env key of None \<Rightarrow> [] | Some v \<Rightarrow> v)"

definition getEnv :: "environ \<Rightarrow> string \<Rightarrow> string \<Rightarrow> string" where
  "getEnv env key defaultValue =
     (let v = os_Getenv env key in if v \<noteq> [] then v else defaultValue)"

text \<open>
  What \<^verbatim>\<open>main\<close> does, as the list of its effects in order, up to the moment the listener
  is started: a log record at level error or info, the attempt to connect, the start of
  the HTTP server on an address, and the return from \<^verbatim>\<open>main\<close>. The wait for a signal and
  the shutdown after it are outside this model. \<open>connect\<close> is the outcome of
  \<^verbatim>\<open>NewPostgresDB\<close> for a connection string: \<open>None\<close> when the pool is up.
\<close>

datatype event =
  SlogError string
| SlogInfo string
| Connect string
| ListenAndServe string
| Exit

definition main :: "environ \<Rightarrow> (string \<Rightarrow> error option) \<Rightarrow> event list" where
  "main env connect =
     (let dsn = getEnv env ''POSTGRES_DSN'' [];
          addr = getEnv env ''SERVER_ADDR'' '':8080''
      in if dsn = [] then [SlogError ''POSTGRES_DSN is not set'', Exit]
         else (case connect dsn of
                 Some err \<Rightarrow> [Connect dsn, SlogError ''failed to connect to database'', Exit]
               | None \<Rightarrow> [Connect dsn, SlogInfo ''Successfully connected to database'',
                           SlogInfo ''Starting server'', ListenAndServe addr]))"

text \<open>The HTTP server was started somewhere in a run.\<close>

fun is_ListenAndServe :: "event \<Rightarrow> bool" where
  "is_ListenAndServe (ListenAndServe _) = True"
| "is_ListenAndServe _ = False"

definition serves :: "event list \<Rightarrow> bool" where
  "serves evs = (filter is_ListenAndServe evs \<noteq> [])"

section \<open>Facts about the integer conversions\<close>

lemma sint_to_int: "sint (to_int x) = sint x"
  unfolding to_int_def by (rule sint_up_scast) (simp add: is_up)

lemma sint_to_int32: "sint (to_int32 x) = signed_take_bit 31 (sint x)"
proof -
  have "sint (ucast x :: 32 word) = signed_take_bit 31 (uint x)"
    by transfer simp
  also have "\<dots> = signed_take_bit 31 (signed_take_bit 63 (uint x))"
    by (simp add: signed_take_bit_signed_take_bit)
  also have "signed_take_bit 63 (uint x) = sint x"
    by (simp add: sint_uint)
  finally show ?thesis by (simp add: to_int32_def)
qed

lemma sint_to_int32_in_range:
  "- (2 ^ 31) \<le> sint x \<Longrightarrow> sint x < 2 ^ 31 \<Longrightarrow> sint (to_int32 x) = sint x"
  by (simp add: sint_to_int32 signed_take_bit_int_eq_self)

lemma sint_inject: "sint x = sint y \<Longrightarrow> x = y"
  by (simp add: word_eq_iff_signed [where ?'a = int])

lemma to_int_to_int32_in_range:
  "- (2 ^ 31) \<le> sint x \<Longrightarrow> sint x < 2 ^ 31 \<Longrightarrow> to_int (to_int32 x) = x"
  by (rule sint_inject) (simp add: sint_to_int sint_to_int32_in_range)

lemma to_int_inject: "to_int a = to_int b \<Longrightarrow> a = b"
proof -
  assume "to_int a = to_int b"
  then have "sint (to_int a) = sint (to_int b)" by simp
  then show "a = b" by (simp add: sint_to_int sint_inject)
qed

lemma sint_int32_range: "- (2 ^ 31) \<le> sint (y :: int32) \<and> sint y < 2 ^ 31"
  using sint_range_size [of y] by (simp add: word_size)

lemma sint_to_int32_wrap: "sint (to_int32 x) = (sint x + 2 ^ 31) mod 2 ^ 32 - 2 ^ 31"
  by (simp add: sint_to_int32 signed_take_bit_eq_take_bit_shift take_bit_eq_mod)

section \<open>Facts about the sorted read\<close>

lemma map_sort_key: "map f (sort_key f xs) = sort (map f xs)"
  by (rule properties_for_sort [symmetric]) simp_all

lemma mset_order_by_number [simp]: "mset (order_by_number t rows) = mset rows"
  by (simp add: order_by_number_def)

lemma set_order_by_number [simp]: "set (order_by_number t rows) = set rows"
  by (simp add: order_by_number_def)

lemma sint_order_by_number:
  "map (\<lambda>r. sint (Number r)) (order_by_number t rows) = sort (map (\<lambda>r. sint (Number r)) rows)"
proof -
  have "map (\<lambda>r. sint (Number r)) (order_by_number t rows)
      = sort (map (\<lambda>r. sint (Number r)) (sort_key t rows))"
    unfolding order_by_number_def by (rule map_sort_key)
  also have "\<dots> = sort (map (\<lambda>r. sint (Number r)) rows)"
    by (rule properties_for_sort) simp_all
  finally show ?thesis .
qed

lemma Numbers_order_by_number_indep:
  "map Number (order_by_number t' rows) = map Number (order_by_number t rows)"
proof -
  have "map sint (map Number (order_by_number t' rows))
      = map sint (map Number (order_by_number t rows))"
    by (simp add: sint_order_by_number o_def)
  moreover have "inj (sint :: int32 \<Rightarrow> int)"
    by (rule injI) (rule sint_inject)
  ultimately show ?thesis by (simp only: inj_map_eq_map)
qed

lemma insort_key_agree:
  "\<forall>y \<in> set (x # ys). g y = f y \<Longrightarrow> insort_key g x ys = insort_key f x ys"
  by (induction ys) simp_all

lemma sort_key_agree:
  "\<forall>y \<in> set xs. g y = f y \<Longrightarrow> sort_key g xs = sort_key f xs"
proof (induction xs)
  case Nil
  show ?case by simp
next
  case (Cons x xs)
  then have ih: "sort_key g xs = sort_key f xs" by simp
  have "\<forall>y \<in> set (x # sort_key f xs). g y = f y" using Cons.prems by simp
  then have "insort_key g x (sort_key f xs) = insort_key f x (sort_key f xs)"
    by (rule insort_key_agree)
  then show ?case by (simp add: ih)
qed

lemma order_by_number_agree:
  "\<forall>r \<in> set rows. t' r = t r \<Longrightarrow> order_by_number t' rows = order_by_number t rows"
  unfolding order_by_number_def by (simp only: sort_key_agree [of rows t' t])

lemma order_by_number_distinct:
  assumes "distinct (map Number rows)"
  shows "order_by_number t' rows = order_by_number t rows"
proof -
  have "inj_on Number (set rows)"
    using assms by (simp add: distinct_map)
  then have "inj_on Number (set (order_by_number t' rows) \<union> set (order_by_number t rows))"
    by simp
  then show ?thesis
    using Numbers_order_by_number_indep [of t' rows t] by (simp only: inj_on_map_eq_map)
qed

section \<open>Facts about the query layer\<close>

lemma InsertNumber_Inl:
  "fst (InsertNumber f u d n) = Inl e \<Longrightarrow>
   snd (InsertNumber f u d n) = d\<lparr>executed := executed d @ [InsertNumberStmt n]\<rparr>"
  by (auto simp: InsertNumber_def Let_def split: option.splits if_splits)

lemma InsertNumber_Inr:
  "fst (InsertNumber f u d n) = Inr r \<Longrightarrow>
   r = \<lparr>ID = u, Number = n\<rparr> \<and> f = None \<and> u \<notin> ID ` set (tbl_numbers d) \<and>
   snd (InsertNumber f u d n) =
     d\<lparr>executed := executed d @ [InsertNumberStmt n], tbl_numbers := tbl_numbers d @ [r]\<rparr>"
  by (auto simp: InsertNumber_def Let_def split: option.splits if_splits)

lemma InsertNumber_succeeds:
  "u \<notin> ID ` set (tbl_numbers d) \<Longrightarrow>
   InsertNumber None u d n =
     (Inr \<lparr>ID = u, Number = n\<rparr>,
      d\<lparr>executed := executed d @ [InsertNumberStmt n],
        tbl_numbers := tbl_numbers d @ [\<lparr>ID = u, Number = n\<rparr>]\<rparr>)"
  by (auto simp: InsertNumber_def Let_def)

lemma tbl_InsertNumber:
  "tbl_numbers (snd (InsertNumber f u d n)) =
     (if f = None \<and> u \<notin> ID ` set (tbl_numbers d)
      then tbl_numbers d @ [\<lparr>ID = u, Number = n\<rparr>] else tbl_numbers d)"
  by (auto simp: InsertNumber_def Let_def split: option.splits)

lemma tbl_GetAllNumbersSorted [simp]:
  "tbl_numbers (snd (GetAllNumbersSorted f t d)) = tbl_numbers d"
  by (simp add: GetAllNumbersSorted_def Let_def split: option.splits)

lemma GetAllNumbersSorted_None:
  "fst (GetAllNumbersSorted None t d) = Inr (order_by_number t (tbl_numbers d))"
  by (simp add: GetAllNumbersSorted_def Let_def)

section \<open>Facts about the handler\<close>

lemma tbl_AddNumber:
  "tbl_numbers (snd (AddNumber w d x)) =
     (if insert_fault w = None \<and> fresh_id w \<notin> ID ` set (tbl_numbers d)
      then tbl_numbers d @ [\<lparr>ID = fresh_id w, Number = to_int32 x\<rparr>] else tbl_numbers d)"
  by (auto simp: AddNumber_def InsertNumber_def GetAllNumbersSorted_def Let_def
      split: option.splits)

lemma AddNumber_200:
  "insert_fault w = None \<Longrightarrow> fresh_id w \<notin> ID ` set (tbl_numbers d) \<Longrightarrow> select_fault w = None \<Longrightarrow>
   fst (AddNumber w d x) =
     (AddNumber200JSONResponse
        (map (\<lambda>num. to_int (Number num))
           (order_by_number (row_order w)
              (tbl_numbers d @ [\<lparr>ID = fresh_id w, Number = to_int32 x\<rparr>]))), None)"
  by (auto simp: AddNumber_def InsertNumber_def GetAllNumbersSorted_def Let_def)

lemma AddNumber_200_D:
  "fst (AddNumber w d x) = (AddNumber200JSONResponse nums, e) \<Longrightarrow>
   nums = map (\<lambda>num. to_int (Number num))
            (order_by_number (row_order w) (tbl_numbers (snd (AddNumber w d x))))"
  by (auto simp: AddNumber_def InsertNumber_def GetAllNumbersSorted_def Let_def
      split: option.splits if_splits)

lemma AddNumber_error_nil: "snd (fst (AddNumber w d x)) = None"
  by (auto simp: AddNumber_def InsertNumber_def GetAllNumbersSorted_def Let_def
      split: option.splits if_splits)

section \<open>Facts about sequences of requests\<close>

lemma serve_Cons:
  "serve ((w, x) # reqs) d =
     (fst (AddNumber w d x) # fst (serve reqs (snd (AddNumber w d x))),
      snd (serve reqs (snd (AddNumber w d x))))"
  by (simp split: prod.splits)

lemma serve_append:
  "serve (xs @ ys) d =
     (fst (serve xs d) @ fst (serve ys (snd (serve xs d))), snd (serve ys (snd (serve xs d))))"
proof (induction xs arbitrary: d)
  case Nil
  show ?case by simp
next
  case (Cons a xs)
  obtain w x where a: "a = (w, x)" by (cases a)
  show ?case unfolding a append_Cons serve_Cons by (simp add: Cons.IH)
qed

lemma prefix_tbl_AddNumber: "prefix (tbl_numbers d) (tbl_numbers (snd (AddNumber w d x)))"
  by (simp add: tbl_AddNumber)

lemma prefix_tbl_serve: "prefix (tbl_numbers d) (tbl_numbers (snd (serve reqs d)))"
proof (induction reqs arbitrary: d)
  case Nil
  show ?case by simp
next
  case (Cons a reqs)
  obtain w x where a: "a = (w, x)" by (cases a)
  have "prefix (tbl_numbers d) (tbl_numbers (snd (AddNumber w d x)))"
    by (rule prefix_tbl_AddNumber)
  also have "prefix \<dots> (tbl_numbers (snd (serve reqs (snd (AddNumber w d x)))))"
    by (rule Cons.IH)
  finally show ?case unfolding a serve_Cons by simp
qed

lemma tbl_serve_ok:
  "\<forall>r \<in> set reqs. insert_fault (fst r) = None \<Longrightarrow>
   distinct (map (\<lambda>r. fresh_id (fst r)) reqs) \<Longrightarrow>
   (\<forall>r \<in> set reqs. fresh_id (fst r) \<notin> ID ` set (tbl_numbers d)) \<Longrightarrow>
   tbl_numbers (snd (serve reqs d)) =
     tbl_numbers d @ map (\<lambda>r. \<lparr>ID = fresh_id (fst r), Number = to_int32 (snd r)\<rparr>) reqs"
proof (induction reqs arbitrary: d)
  case Nil
  show ?case by simp
next
  case (Cons a reqs)
  obtain w x where a: "a = (w, x)" by (cases a)
  let ?d1 = "snd (AddNumber w d x)"
  have t1: "tbl_numbers ?d1 = tbl_numbers d @ [\<lparr>ID = fresh_id w, Number = to_int32 x\<rparr>]"
    using Cons.prems by (simp add: a tbl_AddNumber)
  have "tbl_numbers (snd (serve reqs ?d1)) =
     tbl_numbers ?d1 @ map (\<lambda>r. \<lparr>ID = fresh_id (fst r), Number = to_int32 (snd r)\<rparr>) reqs"
  proof (rule Cons.IH)
    show "\<forall>r \<in> set reqs. insert_fault (fst r) = None" using Cons.prems by simp
    show "distinct (map (\<lambda>r. fresh_id (fst r)) reqs)" using Cons.prems by simp
    show "\<forall>r \<in> set reqs. fresh_id (fst r) \<notin> ID ` set (tbl_numbers ?d1)"
      using Cons.prems by (force simp: t1 a)
  qed
  then show ?case unfolding a serve_Cons by (simp add: t1)
qed

section \<open>Facts about stored rows and what is listed\<close>

lemma to_int_in_range: "- (2 ^ 31) \<le> sint (to_int y) \<and> sint (to_int y) < 2 ^ 31"
  using sint_int32_range [of y] by (simp add: sint_to_int)

lemma Number_in_sorted_read:
  "r \<in> set (tbl_numbers d) \<Longrightarrow>
   \<exists>rs. fst (GetAllNumbersSorted None t d) = Inr rs \<and> r \<in> set rs"
  by (simp add: GetAllNumbersSorted_None)

lemma AddNumber_200_lists:
  assumes "r \<in> set (tbl_numbers (snd (AddNumber w d x)))"
      and "fst (AddNumber w d x) = (AddNumber200JSONResponse nums, e)"
  shows "to_int (Number r) \<in> set nums"
proof -
  have "nums = map (\<lambda>num. to_int (Number num))
            (order_by_number (row_order w) (tbl_numbers (snd (AddNumber w d x))))"
    using assms(2) by (rule AddNumber_200_D)
  then show ?thesis using assms(1) by auto
qed

lemma serve_200_lists:
  "r \<in> set (tbl_numbers d) \<Longrightarrow>
   (AddNumber200JSONResponse nums, e) \<in> set (fst (serve reqs d)) \<Longrightarrow>
   to_int (Number r) \<in> set nums"
proof (induction reqs arbitrary: d)
  case Nil
  then show ?case by simp
next
  case (Cons a reqs)
  obtain w x where a: "a = (w, x)" by (cases a)
  let ?d1 = "snd (AddNumber w d x)"
  have r1: "r \<in> set (tbl_numbers ?d1)"
    using Cons.prems(1) prefix_tbl_AddNumber [of d w x] set_mono_prefix by blast
  from Cons.prems(2) have
    "fst (AddNumber w d x) = (AddNumber200JSONResponse nums, e)
     \<or> (AddNumber200JSONResponse nums, e) \<in> set (fst (serve reqs ?d1))"
    unfolding a serve_Cons by auto
  then show ?case
  proof
    assume "fst (AddNumber w d x) = (AddNumber200JSONResponse nums, e)"
    with r1 show ?thesis by (rule AddNumber_200_lists)
  next
    assume "(AddNumber200JSONResponse nums, e) \<in> set (fst (serve reqs ?d1))"
    with r1 show ?thesis by (rule Cons.IH)
  qed
qed

lemma stored_row_stays:
  "r \<in> set (tbl_numbers d) \<Longrightarrow> r \<in> set (tbl_numbers (snd (serve reqs d)))"
  using prefix_tbl_serve [of d reqs] set_mono_prefix by blast

section \<open>Facts about the last response of a sequence\<close>

lemma inj_to_int: "inj to_int"
  by (rule injI) (rule to_int_inject)

lemma serve_snoc:
  "fst (serve (reqs @ [(w, x)]) d) =
     fst (serve reqs d) @ [fst (AddNumber w (snd (serve reqs d)) x)]"
  by (simp add: serve_append split: prod.splits)

lemma last_response_ok:
  assumes "reqs \<noteq> []"
      and "\<forall>r \<in> set reqs. insert_fault (fst r) = None"
      and "distinct (map (\<lambda>r. fresh_id (fst r)) reqs)"
      and "\<forall>r \<in> set reqs. fresh_id (fst r) \<notin> ID ` set (tbl_numbers d)"
      and "select_fault (fst (last reqs)) = None"
  shows "last (fst (serve reqs d)) =
     (AddNumber200JSONResponse
        (map (\<lambda>num. to_int (Number num))
           (order_by_number (row_order (fst (last reqs)))
              (tbl_numbers d @
               map (\<lambda>r. \<lparr>ID = fresh_id (fst r), Number = to_int32 (snd r)\<rparr>) reqs))), None)"
proof -
  obtain w x where l: "last reqs = (w, x)" by (cases "last reqs")
  let ?bl = "butlast reqs"
  let ?row = "\<lambda>r. \<lparr>ID = fresh_id (fst r), Number = to_int32 (snd r)\<rparr>"
  have split: "reqs = ?bl @ [(w, x)]"
    using assms(1) l by (metis append_butlast_last_id)
  let ?d' = "snd (serve ?bl d)"
  have sub: "set ?bl \<subseteq> set reqs" by (auto dest: in_set_butlastD)
  have dist: "distinct (map (\<lambda>r. fresh_id (fst r)) ?bl)"
    and new: "fresh_id w \<notin> (\<lambda>r. fresh_id (fst r)) ` set ?bl"
    using assms(3) by (subst (asm) split, simp)+
  have tbl: "tbl_numbers ?d' = tbl_numbers d @ map ?row ?bl"
    using assms(2,4) sub dist by (intro tbl_serve_ok) auto
  have win: "(w, x) \<in> set reqs" using assms(1) l by (metis last_in_set)
  have fresh: "fresh_id w \<notin> ID ` set (tbl_numbers ?d')"
  proof
    assume "fresh_id w \<in> ID ` set (tbl_numbers ?d')"
    then have "fresh_id w \<in> ID ` set (tbl_numbers d) \<or> fresh_id w \<in> ID ` set (map ?row ?bl)"
      by (auto simp: tbl)
    moreover have "fresh_id w \<notin> ID ` set (tbl_numbers d)"
      using assms(4) win by force
    moreover have "ID ` set (map ?row ?bl) = (\<lambda>r. fresh_id (fst r)) ` set ?bl"
      by (simp add: image_image)
    ultimately show False using new by simp
  qed
  have "last (fst (serve reqs d)) = fst (AddNumber w ?d' x)"
    by (subst split) (simp only: serve_snoc last_snoc)
  also have "\<dots> = (AddNumber200JSONResponse
        (map (\<lambda>num. to_int (Number num))
           (order_by_number (row_order (fst (last reqs)))
              (tbl_numbers ?d' @ [\<lparr>ID = fresh_id w, Number = to_int32 x\<rparr>]))), None)"
    unfolding l fst_conv using assms(2,5) win fresh l by (intro AddNumber_200) auto
  also have "tbl_numbers ?d' @ [\<lparr>ID = fresh_id w, Number = to_int32 x\<rparr>]
      = tbl_numbers d @ map ?row reqs"
    by (subst (2) split) (simp add: tbl)
  finally show ?thesis .
qed

lemma count_list_listed:
  "count_list (map (\<lambda>num. to_int (Number num)) (order_by_number t rows)) (to_int a) =
   count_list (map Number rows) a"
proof -
  have "map (\<lambda>num. to_int (Number num)) (order_by_number t rows)
      = map to_int (map Number (order_by_number t rows))"
    by simp
  also have "count_list \<dots> (to_int a) = count_list (map Number (order_by_number t rows)) a"
    by (rule count_list_map_conv [OF inj_to_int])
  also have "\<dots> = count (mset (map Number (order_by_number t rows))) a"
    by (simp only: count_mset)
  also have "\<dots> = count (mset (map Number rows)) a"
    by simp
  finally show ?thesis by (simp only: count_mset)
qed

lemma count_list_same_number:
  "count_list (map Number (map (\<lambda>r. \<lparr>ID = g r, Number = a\<rparr>) rs)) a = length rs"
  by (induction rs) simp_all

lemma clearDatabase_read:
  "fst (GetAllNumbersSorted None t (clearDatabase d)) = Inr []"
  by (simp add: GetAllNumbersSorted_None clearDatabase_def order_by_number_def)

section \<open>Properties of the service\<close>

subsection \<open>The response to the last insert\<close>

text \<open>
  C1. Take any non-empty sequence of requests whose numbers are within the signed 32-bit
  range, handled one after the other from the empty store, where the store accepts every
  insert (each with an identifier of its own) and answers the read of the last request.
  Then the last response is the 200 response, and its list holds exactly the numbers of
  all the requests, duplicates included, in ascending order of their signed values.
\<close>

theorem final_response_is_sorted_multiset:
  assumes "reqs \<noteq> []"
      and "\<forall>r \<in> set reqs. insert_fault (fst r) = None"
      and "distinct (map (\<lambda>r. fresh_id (fst r)) reqs)"
      and "select_fault (fst (last reqs)) = None"
      and "\<forall>r \<in> set reqs. - (2 ^ 31) \<le> sint (snd r) \<and> sint (snd r) < 2 ^ 31"
  shows "\<exists>nums. last (fst (serve reqs empty_db)) = (AddNumber200JSONResponse nums, None)
     \<and> StatusCode (AddNumber200JSONResponse nums) = 200
     \<and> mset nums = mset (map snd reqs)
     \<and> sorted (map sint nums)
     \<and> map sint nums = sort (map (\<lambda>r. sint (snd r)) reqs)"
proof -
  let ?rows = "map (\<lambda>r. \<lparr>ID = fresh_id (fst r), Number = to_int32 (snd r)\<rparr>) reqs"
  let ?nums = "map (\<lambda>num. to_int (Number num)) (order_by_number (row_order (fst (last reqs))) ?rows)"
  have "\<forall>r \<in> set reqs. fresh_id (fst r) \<notin> ID ` set (tbl_numbers empty_db)"
    by (simp add: empty_db_def)
  with assms(1,2,3) have "last (fst (serve reqs empty_db)) =
     (AddNumber200JSONResponse
        (map (\<lambda>num. to_int (Number num))
           (order_by_number (row_order (fst (last reqs))) (tbl_numbers empty_db @ ?rows))), None)"
    using assms(4) by (intro last_response_ok)
  then have resp: "last (fst (serve reqs empty_db)) = (AddNumber200JSONResponse ?nums, None)"
    by (simp add: empty_db_def)
  have "mset ?nums = image_mset (\<lambda>num. to_int (Number num)) (mset ?rows)"
    by simp
  also have "\<dots> = mset (map (\<lambda>r. to_int (to_int32 (snd r))) reqs)"
    by (simp add: image_mset.compositionality o_def)
  also have "map (\<lambda>r. to_int (to_int32 (snd r))) reqs = map snd reqs"
    using assms(5) by (intro map_cong refl to_int_to_int32_in_range) auto
  finally have ms: "mset ?nums = mset (map snd reqs)" .
  have "map sint ?nums = map (\<lambda>r. sint (Number r)) (order_by_number (row_order (fst (last reqs))) ?rows)"
    by (simp add: sint_to_int)
  also have "\<dots> = sort (map (\<lambda>r. sint (Number r)) ?rows)"
    by (rule sint_order_by_number)
  also have "map (\<lambda>r. sint (Number r)) ?rows = map (\<lambda>r. sint (to_int32 (snd r))) reqs"
    by simp
  also have "\<dots> = map (\<lambda>r. sint (snd r)) reqs"
    using assms(5) by (intro map_cong refl sint_to_int32_in_range) auto
  finally have srt: "map sint ?nums = sort (map (\<lambda>r. sint (snd r)) reqs)" .
  then have "sorted (map sint ?nums)" by simp
  with resp ms srt show ?thesis by simp
qed

theorem final_response_is_sorted_multiset_witness:
  "\<exists>nums. last (fst (serve
          [(quiet 1, 2147483647),
           ((quiet 2)\<lparr>select_fault := Some (StoreError ''timeout'')\<rparr>, 0),
           (quiet 3, - 2147483648)]
          empty_db)) = (AddNumber200JSONResponse nums, None)
     \<and> StatusCode (AddNumber200JSONResponse nums) = 200
     \<and> mset nums = mset [2147483647, 0, - 2147483648]
     \<and> sorted (map sint nums)
     \<and> map sint nums = [- 2147483648, 0, 2147483647]"
proof -
  let ?reqs = "[(quiet 1, 2147483647 :: int64),
           ((quiet 2)\<lparr>select_fault := Some (StoreError ''timeout'')\<rparr>, 0),
           (quiet 3, - 2147483648)]"
  have h1: "?reqs \<noteq> []" by (simp add: quiet_def)
  have h2: "\<forall>r \<in> set ?reqs. insert_fault (fst r) = None" by (simp add: quiet_def)
  have h3: "distinct (map (\<lambda>r. fresh_id (fst r)) ?reqs)" by (simp add: quiet_def)
  have h4: "select_fault (fst (last ?reqs)) = None" by (simp add: quiet_def)
  have h5: "\<forall>r \<in> set ?reqs. - (2 ^ 31) \<le> sint (snd r) \<and> sint (snd r) < 2 ^ 31" by (simp add: quiet_def)
  have s: "sort (map (\<lambda>r. sint (snd r)) ?reqs) = [- 2147483648, 0, 2147483647]" by (simp add: quiet_def)
  show ?thesis
    using final_response_is_sorted_multiset [OF h1 h2 h3 h4 h5] unfolding s by (simp add: quiet_def)
qed

subsection \<open>Duplicates\<close>

text \<open>
  C5. Take a value \<open>v\<close> within the signed 32-bit range and \<open>n \<ge> 1\<close> requests that all carry
  \<open>v\<close>, handled one after the other, where the store accepts every insert (each with an
  identifier of its own) and answers the read of the last request. Then the table has
  gained \<open>n\<close> rows holding \<open>v\<close>, pairwise distinct records, and the list of the last
  response holds \<open>v\<close> exactly \<open>n\<close> times more often than the table held it before: exactly
  \<open>n\<close> times from the empty store. Nothing is deduplicated.
\<close>

theorem duplicates_are_preserved:
  assumes "- (2 ^ 31) \<le> sint v" and "sint v < 2 ^ 31"
      and "ws \<noteq> []"
      and "\<forall>w \<in> set ws. insert_fault w = None"
      and "distinct (map fresh_id ws)"
      and "\<forall>w \<in> set ws. fresh_id w \<notin> ID ` set (tbl_numbers d)"
      and "select_fault (last ws) = None"
  shows "tbl_numbers (snd (serve (map (\<lambda>w. (w, v)) ws) d)) =
           tbl_numbers d @ map (\<lambda>w. \<lparr>ID = fresh_id w, Number = to_int32 v\<rparr>) ws
     \<and> distinct (map (\<lambda>w. \<lparr>ID = fresh_id w, Number = to_int32 v\<rparr>) ws)
     \<and> (\<exists>nums. last (fst (serve (map (\<lambda>w. (w, v)) ws) d)) = (AddNumber200JSONResponse nums, None)
           \<and> count_list nums v = count_list (map Number (tbl_numbers d)) (to_int32 v) + length ws)"
proof -
  let ?reqs = "map (\<lambda>w. (w, v)) ws"
  let ?rows = "map (\<lambda>w. \<lparr>ID = fresh_id w, Number = to_int32 v\<rparr>) ws"
  let ?nums = "map (\<lambda>num. to_int (Number num))
                 (order_by_number (row_order (last ws)) (tbl_numbers d @ ?rows))"
  have rows: "map (\<lambda>r. \<lparr>ID = fresh_id (fst r), Number = to_int32 (snd r)\<rparr>) ?reqs = ?rows"
    by (simp add: o_def)
  have h1: "?reqs \<noteq> []" using assms(3) by simp
  have h2: "\<forall>r \<in> set ?reqs. insert_fault (fst r) = None" using assms(4) by simp
  have h3: "distinct (map (\<lambda>r. fresh_id (fst r)) ?reqs)" using assms(5) by (simp add: o_def)
  have h4: "\<forall>r \<in> set ?reqs. fresh_id (fst r) \<notin> ID ` set (tbl_numbers d)"
    using assms(6) by simp
  have h5: "select_fault (fst (last ?reqs)) = None"
    using assms(3,7) by (simp add: last_map)
  have fl: "fst (last ?reqs) = last ws"
    using assms(3) by (simp add: last_map)
  have tbl: "tbl_numbers (snd (serve ?reqs d)) = tbl_numbers d @ ?rows"
    using tbl_serve_ok [OF h2 h3 h4] by (simp only: rows)
  have "inj_on (\<lambda>w. \<lparr>ID = fresh_id w, Number = to_int32 v\<rparr>) (set ws)"
    using assms(5) by (auto simp: inj_on_def distinct_map)
  then have dist: "distinct ?rows"
    using assms(5) by (simp add: distinct_map distinct_map [THEN iffD1, THEN conjunct1])
  have resp: "last (fst (serve ?reqs d)) = (AddNumber200JSONResponse ?nums, None)"
    using last_response_ok [OF h1 h2 h3 h4 h5] by (simp only: rows fl)
  have "count_list ?nums v = count_list ?nums (to_int (to_int32 v))"
    using assms(1,2) by (simp add: to_int_to_int32_in_range)
  also have "\<dots> = count_list (map Number (tbl_numbers d @ ?rows)) (to_int32 v)"
    by (rule count_list_listed)
  also have "\<dots> = count_list (map Number (tbl_numbers d)) (to_int32 v) + length ws"
    by (simp add: count_list_same_number del: map_map)
  finally have "count_list ?nums v =
      count_list (map Number (tbl_numbers d)) (to_int32 v) + length ws" .
  with tbl dist resp show ?thesis by blast
qed

theorem duplicates_are_preserved_witness:
  "tbl_numbers (snd (serve
       [(quiet 1, 5), (quiet 2, 5), (quiet 3, 5)] empty_db))
     = [\<lparr>ID = 1, Number = 5\<rparr>, \<lparr>ID = 2, Number = 5\<rparr>, \<lparr>ID = 3, Number = 5\<rparr>]
   \<and> (\<exists>nums. last (fst (serve
       [(quiet 1, 5), (quiet 2, 5), (quiet 3, 5)] empty_db))
         = (AddNumber200JSONResponse nums, None)
       \<and> count_list nums 5 = 3)"
proof -
  let ?ws = "[quiet 1, quiet 2, quiet 3]"
  have r: "- (2 ^ 31) \<le> sint (5 :: int64)" "sint (5 :: int64) < 2 ^ 31" by simp_all
  have h3: "?ws \<noteq> []" by (simp add: quiet_def)
  have h4: "\<forall>w \<in> set ?ws. insert_fault w = None" by (simp add: quiet_def)
  have h5: "distinct (map fresh_id ?ws)" by (simp add: quiet_def)
  have h6: "\<forall>w \<in> set ?ws. fresh_id w \<notin> ID ` set (tbl_numbers empty_db)"
    by (simp add: quiet_def empty_db_def)
  have h7: "select_fault (last ?ws) = None" by (simp add: quiet_def)
  have n: "to_int32 5 = 5" by (simp add: to_int32_def)
  show ?thesis
    using duplicates_are_preserved [OF r h3 h4 h5 h6 h7]
    by (simp add: quiet_def n empty_db_def numeral_3_eq_3)
qed

subsection \<open>Reading twice\<close>

text \<open>
  C7. For every store state, two sorted-list reads in a row, with no insert between them
  and both answered, leave the table as it is and return the same records carrying the
  same list of numbers, in ascending order. The two lists of records are identical when
  the engine reaches the stored rows of equal number in the same order both times, and in
  any case when no two stored rows hold the same number.
\<close>

theorem read_twice_same_numbers:
  "\<exists>rs rs'. fst (GetAllNumbersSorted None t d) = Inr rs
     \<and> fst (GetAllNumbersSorted None t' (snd (GetAllNumbersSorted None t d))) = Inr rs'
     \<and> tbl_numbers (snd (GetAllNumbersSorted None t' (snd (GetAllNumbersSorted None t d))))
         = tbl_numbers d
     \<and> map Number rs' = map Number rs
     \<and> mset rs' = mset rs
     \<and> sorted (map (\<lambda>r. sint (Number r)) rs)
     \<and> ((\<forall>r \<in> set (tbl_numbers d). t' r = t r) \<longrightarrow> rs' = rs)
     \<and> (distinct (map Number (tbl_numbers d)) \<longrightarrow> rs' = rs)"
proof -
  let ?rs = "order_by_number t (tbl_numbers d)"
  let ?rs' = "order_by_number t' (tbl_numbers d)"
  have a: "fst (GetAllNumbersSorted None t d) = Inr ?rs"
    by (rule GetAllNumbersSorted_None)
  have b: "fst (GetAllNumbersSorted None t' (snd (GetAllNumbersSorted None t d))) = Inr ?rs'"
    by (simp add: GetAllNumbersSorted_None)
  have c: "tbl_numbers (snd (GetAllNumbersSorted None t' (snd (GetAllNumbersSorted None t d))))
         = tbl_numbers d"
    by simp
  have e: "map Number ?rs' = map Number ?rs"
    by (rule Numbers_order_by_number_indep)
  have f: "mset ?rs' = mset ?rs"
    by simp
  have g: "sorted (map (\<lambda>r. sint (Number r)) ?rs)"
    by (simp add: sint_order_by_number)
  have h: "(\<forall>r \<in> set (tbl_numbers d). t' r = t r) \<longrightarrow> ?rs' = ?rs"
    by (simp add: order_by_number_agree)
  have i: "distinct (map Number (tbl_numbers d)) \<longrightarrow> ?rs' = ?rs"
    by (simp add: order_by_number_distinct)
  from a b c e f g h i show ?thesis by blast
qed

theorem read_twice_same_numbers_witness:
  "distinct (map Number (tbl_numbers (snd (serve [(quiet 2, 5), (quiet 1, 3)] empty_db))))
   \<and> fst (GetAllNumbersSorted None id_order
            (snd (GetAllNumbersSorted None storage_order
                    (snd (serve [(quiet 2, 5), (quiet 1, 3)] empty_db)))))
       = fst (GetAllNumbersSorted None storage_order
                (snd (serve [(quiet 2, 5), (quiet 1, 3)] empty_db)))
   \<and> fst (GetAllNumbersSorted None id_order
            (snd (GetAllNumbersSorted None id_order
                    (snd (serve [(quiet 2, 5), (quiet 1, 5)] empty_db)))))
       = fst (GetAllNumbersSorted None id_order
                (snd (serve [(quiet 2, 5), (quiet 1, 5)] empty_db)))"
proof -
  let ?d1 = "snd (serve [(quiet 2, 5), (quiet 1, 3)] empty_db)"
  let ?d2 = "snd (serve [(quiet 2, 5), (quiet 1, 5)] empty_db)"
  have dis: "distinct (map Number (tbl_numbers ?d1))"
    by (simp add: AddNumber_def InsertNumber_def GetAllNumbersSorted_def Let_def quiet_def
        empty_db_def to_int32_def)
  have agree: "\<forall>r \<in> set (tbl_numbers ?d2). id_order r = id_order r"
    by simp
  obtain rs rs' where
      "fst (GetAllNumbersSorted None storage_order ?d1) = Inr rs"
      "fst (GetAllNumbersSorted None id_order (snd (GetAllNumbersSorted None storage_order ?d1)))
         = Inr rs'"
      "distinct (map Number (tbl_numbers ?d1)) \<longrightarrow> rs' = rs"
    using read_twice_same_numbers [of storage_order ?d1 id_order] by blast
  with dis have one:
    "fst (GetAllNumbersSorted None id_order (snd (GetAllNumbersSorted None storage_order ?d1)))
       = fst (GetAllNumbersSorted None storage_order ?d1)"
    by simp
  obtain qs qs' where
      "fst (GetAllNumbersSorted None id_order ?d2) = Inr qs"
      "fst (GetAllNumbersSorted None id_order (snd (GetAllNumbersSorted None id_order ?d2)))
         = Inr qs'"
      "(\<forall>r \<in> set (tbl_numbers ?d2). id_order r = id_order r) \<longrightarrow> qs' = qs"
    using read_twice_same_numbers [of id_order ?d2 id_order] by blast
  with agree have two:
    "fst (GetAllNumbersSorted None id_order (snd (GetAllNumbersSorted None id_order ?d2)))
       = fst (GetAllNumbersSorted None id_order ?d2)"
    by simp
  from dis one two show ?thesis by blast
qed

text \<open>
  The two lists of records need not be identical otherwise. After two accepted inserts of
  the number 5, a read that reaches the rows in storage order followed by a read that
  reaches them in the order of their identifiers returns the same two records in two
  different orders: the statement has no second sort key.
\<close>

theorem read_twice_records_differ:
  "fst (GetAllNumbersSorted None id_order
          (snd (GetAllNumbersSorted None storage_order
                  (snd (serve [(quiet 2, 5), (quiet 1, 5)] empty_db)))))
     \<noteq> fst (GetAllNumbersSorted None storage_order
              (snd (serve [(quiet 2, 5), (quiet 1, 5)] empty_db)))"
  by (simp add: GetAllNumbersSorted_def AddNumber_def InsertNumber_def Let_def quiet_def
      empty_db_def order_by_number_def storage_order_def id_order_def to_int32_def)

subsection \<open>The frame of a request\<close>

text \<open>
  C8. A request changes the table by at most one thing, the new row appended by its single
  insert: after \<open>AddNumber\<close> the table is the old one or the old one followed by the new
  row, the statements executed are one insert alone or one insert and one read, a read
  leaves the table as it is, and the rows stored before (identifiers and values) are still
  there, unchanged and in place, after an insert and after any sequence of requests.
\<close>

theorem only_mutation_is_one_insert:
  "(tbl_numbers (snd (AddNumber w d x)) = tbl_numbers d
      \<or> tbl_numbers (snd (AddNumber w d x)) =
          tbl_numbers d @ [\<lparr>ID = fresh_id w, Number = to_int32 x\<rparr>])
   \<and> (executed (snd (AddNumber w d x)) = executed d @ [InsertNumberStmt (to_int32 x)]
      \<or> executed (snd (AddNumber w d x)) =
          executed d @ [InsertNumberStmt (to_int32 x), GetAllNumbersSortedStmt])
   \<and> tbl_numbers (snd (GetAllNumbersSorted f t d)) = tbl_numbers d
   \<and> prefix (tbl_numbers d) (tbl_numbers (snd (InsertNumber f u d n)))
   \<and> prefix (tbl_numbers d) (tbl_numbers (snd (serve reqs d)))"
proof -
  have a: "tbl_numbers (snd (AddNumber w d x)) = tbl_numbers d
      \<or> tbl_numbers (snd (AddNumber w d x)) =
          tbl_numbers d @ [\<lparr>ID = fresh_id w, Number = to_int32 x\<rparr>]"
    by (simp add: tbl_AddNumber)
  have b: "executed (snd (AddNumber w d x)) = executed d @ [InsertNumberStmt (to_int32 x)]
      \<or> executed (snd (AddNumber w d x)) =
          executed d @ [InsertNumberStmt (to_int32 x), GetAllNumbersSortedStmt]"
    by (auto simp: AddNumber_def InsertNumber_def GetAllNumbersSorted_def Let_def
        split: option.splits)
  have c: "prefix (tbl_numbers d) (tbl_numbers (snd (InsertNumber f u d n)))"
    by (simp add: tbl_InsertNumber)
  show ?thesis using a b c prefix_tbl_serve [of d reqs] by simp
qed

subsection \<open>A failed insert\<close>

text \<open>
  C2. When the insert of a request fails with an error \<open>e\<close>, the handler returns the 500
  response whose message is "failed to insert number: " followed by the text of \<open>e\<close>,
  its own error is nil, and the only statement it has executed is that one insert: no
  read, no second insert. The table is as it was.
\<close>

theorem insert_failure_gives_500:
  assumes "fst (InsertNumber (insert_fault w) (fresh_id w) d (to_int32 x)) = Inl e"
  shows "AddNumber w d x =
           ((AddNumber500JSONResponse (''failed to insert number: '' @ Error e), None),
            d\<lparr>executed := executed d @ [InsertNumberStmt (to_int32 x)]\<rparr>)
         \<and> StatusCode (fst (fst (AddNumber w d x))) = 500"
proof -
  from assms have "snd (InsertNumber (insert_fault w) (fresh_id w) d (to_int32 x)) =
      d\<lparr>executed := executed d @ [InsertNumberStmt (to_int32 x)]\<rparr>"
    by (rule InsertNumber_Inl)
  with assms have "InsertNumber (insert_fault w) (fresh_id w) d (to_int32 x) =
      (Inl e, d\<lparr>executed := executed d @ [InsertNumberStmt (to_int32 x)]\<rparr>)"
    by (simp add: prod_eq_iff)
  then show ?thesis by (simp add: AddNumber_def)
qed

theorem insert_failure_gives_500_witness:
  "AddNumber ((quiet 7)\<lparr>insert_fault := Some (StoreError ''connection refused'')\<rparr>)
       empty_db 42 =
     ((AddNumber500JSONResponse ''failed to insert number: connection refused'', None),
      \<lparr>tbl_numbers = [], executed = [InsertNumberStmt 42]\<rparr>)
   \<and> StatusCode (fst (fst (AddNumber
        ((quiet 7)\<lparr>insert_fault := Some (StoreError ''connection refused'')\<rparr>)
        empty_db 42))) = 500"
  using insert_failure_gives_500
    [of "(quiet 7)\<lparr>insert_fault := Some (StoreError ''connection refused'')\<rparr>"
        empty_db 42 "StoreError ''connection refused''"]
  by (simp add: quiet_def InsertNumber_def empty_db_def to_int32_def)

subsection \<open>Start-up without a connection string\<close>

text \<open>
  C9. When the variable \<^verbatim>\<open>POSTGRES_DSN\<close> is not set, \<^verbatim>\<open>main\<close> logs the error
  "POSTGRES_DSN is not set" and returns: it neither connects nor starts the HTTP server.
\<close>

theorem missing_dsn_never_serves:
  assumes "env ''POSTGRES_DSN'' = None"
  shows "main env connect = [SlogError ''POSTGRES_DSN is not set'', Exit]
         \<and> \<not> serves (main env connect)"
  using assms by (simp add: main_def getEnv_def os_Getenv_def serves_def Let_def)

theorem missing_dsn_never_serves_witness:
  "main Map.empty (\<lambda>_. None) = [SlogError ''POSTGRES_DSN is not set'', Exit]
   \<and> \<not> serves (main Map.empty (\<lambda>_. None))"
  using missing_dsn_never_serves [of Map.empty "\<lambda>_. None"] by (simp add: serves_def)

subsection \<open>A failed read after a successful insert\<close>

text \<open>
  C3. When the insert of a request succeeds with the record \<open>r\<close> and the read that follows
  fails with an error \<open>e\<close>, the handler returns the 500 response "failed to get numbers: "
  followed by the text of \<open>e\<close>, with a nil error of its own; the record holds the number of
  the request and is in the table after the call; and after any sequence of later requests
  a read that succeeds returns \<open>r\<close>, and every later 200 response lists its value.
\<close>

theorem read_failure_keeps_insert:
  assumes "InsertNumber (insert_fault w) (fresh_id w) d (to_int32 x) = (Inr r, d1)"
      and "fst (GetAllNumbersSorted (select_fault w) (row_order w) d1) = Inl e"
  shows "fst (AddNumber w d x) =
           (AddNumber500JSONResponse (''failed to get numbers: '' @ Error e), None)
   \<and> StatusCode (fst (fst (AddNumber w d x))) = 500
   \<and> Number r = to_int32 x
   \<and> r \<in> set (tbl_numbers (snd (AddNumber w d x)))
   \<and> (\<exists>rs. fst (GetAllNumbersSorted None t (snd (serve reqs (snd (AddNumber w d x))))) = Inr rs
          \<and> r \<in> set rs)
   \<and> (\<forall>nums e'. (AddNumber200JSONResponse nums, e') \<in> set (fst (serve reqs (snd (AddNumber w d x))))
         \<longrightarrow> to_int (to_int32 x) \<in> set nums)"
proof -
  have ins: "fst (InsertNumber (insert_fault w) (fresh_id w) d (to_int32 x)) = Inr r"
    using assms(1) by simp
  then have r: "r = \<lparr>ID = fresh_id w, Number = to_int32 x\<rparr>"
    and ok: "insert_fault w = None" "fresh_id w \<notin> ID ` set (tbl_numbers d)"
    using InsertNumber_Inr [of "insert_fault w" "fresh_id w" d "to_int32 x" r] by simp_all
  have resp: "fst (AddNumber w d x) =
           (AddNumber500JSONResponse (''failed to get numbers: '' @ Error e), None)"
    using assms by (auto simp: AddNumber_def split: prod.splits sum.splits)
  have stored: "r \<in> set (tbl_numbers (snd (AddNumber w d x)))"
    using ok by (simp add: tbl_AddNumber r)
  have later: "r \<in> set (tbl_numbers (snd (serve reqs (snd (AddNumber w d x)))))"
    using stored by (rule stored_row_stays)
  have listed: "to_int (to_int32 x) \<in> set nums"
    if "(AddNumber200JSONResponse nums, e') \<in> set (fst (serve reqs (snd (AddNumber w d x))))"
    for nums e'
    using serve_200_lists [OF stored that] by (simp add: r)
  show ?thesis
    using resp stored Number_in_sorted_read [OF later] listed by (simp add: r)
qed

theorem read_failure_keeps_insert_witness:
  "InsertNumber None 1 empty_db 5 =
     (Inr \<lparr>ID = 1, Number = 5\<rparr>,
      \<lparr>tbl_numbers = [\<lparr>ID = 1, Number = 5\<rparr>], executed = [InsertNumberStmt 5]\<rparr>)
   \<and> fst (GetAllNumbersSorted (Some (StoreError ''timeout'')) (\<lambda>_. 0)
        \<lparr>tbl_numbers = [\<lparr>ID = 1, Number = 5\<rparr>], executed = [InsertNumberStmt 5]\<rparr>)
       = Inl (StoreError ''timeout'')
   \<and> fst (AddNumber ((quiet 1)\<lparr>select_fault := Some (StoreError ''timeout'')\<rparr>)
          empty_db 5)
       = (AddNumber500JSONResponse ''failed to get numbers: timeout'', None)
   \<and> (\<exists>rs. fst (GetAllNumbersSorted None (\<lambda>_. 0)
            (snd (serve [(quiet 2, 3)]
               (snd (AddNumber ((quiet 1)\<lparr>select_fault := Some (StoreError ''timeout'')\<rparr>) empty_db 5))))) = Inr rs
          \<and> \<lparr>ID = 1, Number = 5\<rparr> \<in> set rs)
   \<and> (AddNumber200JSONResponse [3, 5], None)
        \<in> set (fst (serve [(quiet 2, 3)]
               (snd (AddNumber ((quiet 1)\<lparr>select_fault := Some (StoreError ''timeout'')\<rparr>) empty_db 5))))
   \<and> to_int (to_int32 5) \<in> set [3, 5 :: int64]"
proof -
  let ?w = "(quiet 1)\<lparr>select_fault := Some (StoreError ''timeout'')\<rparr>"
  let ?d1 = "\<lparr>tbl_numbers = [\<lparr>ID = 1, Number = 5\<rparr>], executed = [InsertNumberStmt 5]\<rparr>"
  let ?reqs = "[(quiet 2, 3 :: int64)]"
  have n: "to_int32 5 = 5" by (simp add: to_int32_def)
  have h1: "InsertNumber (insert_fault ?w) (fresh_id ?w) empty_db (to_int32 5)
              = (Inr \<lparr>ID = 1, Number = 5\<rparr>, ?d1)"
    by (simp add: quiet_def InsertNumber_def empty_db_def Let_def n)
  have h2: "fst (GetAllNumbersSorted (select_fault ?w) (row_order ?w) ?d1) = Inl (StoreError ''timeout'')"
    by (simp add: quiet_def GetAllNumbersSorted_def Let_def)
  have m: "(AddNumber200JSONResponse [3, 5], None)
      \<in> set (fst (serve ?reqs (snd (AddNumber ?w empty_db 5))))"
    by (simp add: quiet_def AddNumber_def InsertNumber_def GetAllNumbersSorted_def empty_db_def Let_def
        to_int32_def to_int_def order_by_number_def)
  note t = read_failure_keeps_insert [OF h1 h2, where reqs = ?reqs and t = "\<lambda>_. 0"]
  from t have resp: "fst (AddNumber ?w empty_db 5)
       = (AddNumber500JSONResponse (''failed to get numbers: '' @ Error (StoreError ''timeout'')), None)"
    by blast
  from t have rd: "\<exists>rs. fst (GetAllNumbersSorted None (\<lambda>_. 0) (snd (serve ?reqs (snd (AddNumber ?w empty_db 5)))))
       = Inr rs \<and> \<lparr>ID = 1, Number = 5\<rparr> \<in> set rs"
    by blast
  from t m have l: "to_int (to_int32 5) \<in> set [3, 5 :: int64]"
    by blast
  from h1 h2 resp rd m l show ?thesis by (simp add: quiet_def n)
qed

subsection \<open>Values within the 32-bit range\<close>

text \<open>
  C4. For a request whose number is within the signed 32-bit range (the two boundaries
  included), when the store accepts the insert and answers the read, the conversion to
  \<^verbatim>\<open>int32\<close> keeps the value, the row appended to the table holds it, converting back gives
  the number of the request, and the response is the 200 response and lists that number:
  no value of the range is refused or changed.
\<close>

theorem in_range_value_round_trips:
  assumes "- (2 ^ 31) \<le> sint x" and "sint x < 2 ^ 31"
      and "insert_fault w = None" and "fresh_id w \<notin> ID ` set (tbl_numbers d)"
      and "select_fault w = None"
  shows "sint (to_int32 x) = sint x
   \<and> to_int (to_int32 x) = x
   \<and> tbl_numbers (snd (AddNumber w d x)) =
       tbl_numbers d @ [\<lparr>ID = fresh_id w, Number = to_int32 x\<rparr>]
   \<and> (\<exists>nums. fst (AddNumber w d x) = (AddNumber200JSONResponse nums, None) \<and> x \<in> set nums)"
proof -
  have a: "sint (to_int32 x) = sint x"
    using assms(1,2) by (rule sint_to_int32_in_range)
  have b: "to_int (to_int32 x) = x"
    using assms(1,2) by (rule to_int_to_int32_in_range)
  have c: "tbl_numbers (snd (AddNumber w d x)) =
       tbl_numbers d @ [\<lparr>ID = fresh_id w, Number = to_int32 x\<rparr>]"
    using assms(3,4) by (simp add: tbl_AddNumber)
  let ?nums = "map (\<lambda>num. to_int (Number num))
           (order_by_number (row_order w)
              (tbl_numbers d @ [\<lparr>ID = fresh_id w, Number = to_int32 x\<rparr>]))"
  have "fst (AddNumber w d x) = (AddNumber200JSONResponse ?nums, None)"
    using assms(3,4,5) by (rule AddNumber_200)
  moreover have "to_int (to_int32 x) \<in> set ?nums"
    by simp
  ultimately have "\<exists>nums. fst (AddNumber w d x) = (AddNumber200JSONResponse nums, None)
      \<and> x \<in> set nums"
    using b by auto
  with a b c show ?thesis by blast
qed

theorem in_range_value_round_trips_witness:
  "- (2 ^ 31) \<le> sint (- 2147483648 :: int64) \<and> sint (- 2147483648 :: int64) < 2 ^ 31
   \<and> sint (to_int32 (- 2147483648)) = sint (- 2147483648 :: int64)
   \<and> to_int (to_int32 (- 2147483648)) = - 2147483648
   \<and> tbl_numbers (snd (AddNumber (quiet 1) empty_db (- 2147483648))) = [\<lparr>ID = 1, Number = to_int32 (- 2147483648)\<rparr>]
   \<and> (\<exists>nums. fst (AddNumber (quiet 1) empty_db (- 2147483648)) = (AddNumber200JSONResponse nums, None)
         \<and> - 2147483648 \<in> set nums)
   \<and> - (2 ^ 31) \<le> sint (2147483647 :: int64) \<and> sint (2147483647 :: int64) < 2 ^ 31
   \<and> to_int (to_int32 2147483647) = 2147483647
   \<and> (\<exists>nums. fst (AddNumber (quiet 1) empty_db 2147483647) = (AddNumber200JSONResponse nums, None)
         \<and> 2147483647 \<in> set nums)"
proof -
  have lo: "- (2 ^ 31) \<le> sint (- 2147483648 :: int64)" "sint (- 2147483648 :: int64) < 2 ^ 31"
    by simp_all
  have hi: "- (2 ^ 31) \<le> sint (2147483647 :: int64)" "sint (2147483647 :: int64) < 2 ^ 31"
    by simp_all
  have w: "insert_fault (quiet 1) = None"
    "fresh_id (quiet 1) \<notin> ID ` set (tbl_numbers empty_db)"
    "select_fault (quiet 1) = None"
    by (simp_all add: quiet_def empty_db_def)
  show ?thesis
    using lo hi in_range_value_round_trips [OF lo w] in_range_value_round_trips [OF hi w]
    by (simp add: quiet_def empty_db_def)
qed

subsection \<open>An inserted value stays listed\<close>

text \<open>
  C6. When the insert of a request succeeds with the record \<open>r\<close>, then \<open>r\<close> is the new row
  with the request's number, and after this request and any sequence of later requests a
  read that succeeds returns \<open>r\<close>; every 200 response of this request and of the later
  ones lists the inserted value. (Only \<open>clearDatabase\<close>, which no request runs, removes
  rows.)
\<close>

theorem inserted_value_stays_listed:
  assumes "fst (InsertNumber (insert_fault w) (fresh_id w) d (to_int32 x)) = Inr r"
  shows "r = \<lparr>ID = fresh_id w, Number = to_int32 x\<rparr>
   \<and> (\<exists>rs. fst (GetAllNumbersSorted None t (snd (serve ((w, x) # reqs) d))) = Inr rs \<and> r \<in> set rs)
   \<and> (\<forall>nums e. (AddNumber200JSONResponse nums, e) \<in> set (fst (serve ((w, x) # reqs) d))
         \<longrightarrow> to_int (to_int32 x) \<in> set nums)"
proof -
  from assms have r: "r = \<lparr>ID = fresh_id w, Number = to_int32 x\<rparr>"
    and ok: "insert_fault w = None" "fresh_id w \<notin> ID ` set (tbl_numbers d)"
    using InsertNumber_Inr [of "insert_fault w" "fresh_id w" d "to_int32 x" r] by simp_all
  have "r \<in> set (tbl_numbers (snd (AddNumber w d x)))"
    using ok by (simp add: tbl_AddNumber r)
  then have stored: "r \<in> set (tbl_numbers (snd (serve ((w, x) # reqs) d)))"
    unfolding serve_Cons by (simp add: stored_row_stays)
  have listed: "to_int (to_int32 x) \<in> set nums"
    if "(AddNumber200JSONResponse nums, e) \<in> set (fst (serve ((w, x) # reqs) d))" for nums e
  proof -
    have "(AddNumber200JSONResponse nums, e) \<in> set (fst (serve ([(w, x)] @ reqs) d))"
      using that by simp
    then have "fst (AddNumber w d x) = (AddNumber200JSONResponse nums, e)
        \<or> (AddNumber200JSONResponse nums, e) \<in> set (fst (serve reqs (snd (AddNumber w d x))))"
      unfolding append_Cons append_Nil serve_Cons by auto
    then have "to_int (Number r) \<in> set nums"
      using \<open>r \<in> set (tbl_numbers (snd (AddNumber w d x)))\<close>
      by (auto intro: AddNumber_200_lists serve_200_lists)
    then show ?thesis by (simp add: r)
  qed
  show ?thesis using r Number_in_sorted_read [OF stored] listed by blast
qed

theorem inserted_value_stays_listed_witness:
  "fst (InsertNumber None 1 empty_db 5) = Inr \<lparr>ID = 1, Number = 5\<rparr>
   \<and> (\<exists>rs. fst (GetAllNumbersSorted None (\<lambda>_. 0)
            (snd (serve [(quiet 1, 5), (quiet 2, 3)]
                    empty_db))) = Inr rs
          \<and> \<lparr>ID = 1, Number = 5\<rparr> \<in> set rs)
   \<and> (AddNumber200JSONResponse [3, 5], None)
        \<in> set (fst (serve [(quiet 1, 5), (quiet 2, 3)]
                       empty_db))
   \<and> to_int (to_int32 5) \<in> set [3, 5 :: int64]"
proof -
  let ?w = "quiet 1"
  let ?reqs = "[(quiet 2, 3 :: int64)]"
  have n: "to_int32 5 = 5" by (simp add: to_int32_def)
  have h: "fst (InsertNumber (insert_fault ?w) (fresh_id ?w) empty_db (to_int32 5))
             = Inr \<lparr>ID = 1, Number = 5\<rparr>"
    by (simp add: quiet_def InsertNumber_def empty_db_def Let_def n)
  have m: "(AddNumber200JSONResponse [3, 5], None) \<in> set (fst (serve ((?w, 5) # ?reqs) empty_db))"
    by (simp add: quiet_def AddNumber_def InsertNumber_def GetAllNumbersSorted_def empty_db_def Let_def
        to_int32_def to_int_def order_by_number_def)
  note t = inserted_value_stays_listed [OF h, where reqs = ?reqs and t = "\<lambda>_. 0"]
  from t have rd: "\<exists>rs. fst (GetAllNumbersSorted None (\<lambda>_. 0) (snd (serve ((?w, 5) # ?reqs) empty_db))) = Inr rs
      \<and> \<lparr>ID = 1, Number = 5\<rparr> \<in> set rs"
    by blast
  from t m have l: "to_int (to_int32 5) \<in> set [3, 5 :: int64]"
    by blast
  from h rd m l show ?thesis by (simp add: quiet_def n)
qed

subsection \<open>Values outside the 32-bit range\<close>

text \<open>
  C10. For a request whose number is outside the signed 32-bit range, when the store
  accepts the insert and answers the read, the handler stores the number narrowed to
  \<^verbatim>\<open>int32\<close>, which is the number wrapped modulo \<open>2 ^ 32\<close> into the signed range and differs
  from it; the response is the 200 response, it lists the narrowed value and does not list
  the number the caller sent. Nothing is validated and no error is returned.
\<close>

theorem out_of_range_value_is_narrowed:
  assumes "sint x < - (2 ^ 31) \<or> 2 ^ 31 \<le> sint x"
      and "insert_fault w = None" and "fresh_id w \<notin> ID ` set (tbl_numbers d)"
      and "select_fault w = None"
  shows "tbl_numbers (snd (AddNumber w d x)) =
       tbl_numbers d @ [\<lparr>ID = fresh_id w, Number = to_int32 x\<rparr>]
   \<and> sint (to_int32 x) = (sint x + 2 ^ 31) mod 2 ^ 32 - 2 ^ 31
   \<and> sint (to_int32 x) \<noteq> sint x
   \<and> (\<exists>nums. fst (AddNumber w d x) = (AddNumber200JSONResponse nums, None)
         \<and> to_int (to_int32 x) \<in> set nums \<and> x \<notin> set nums)"
proof -
  have a: "tbl_numbers (snd (AddNumber w d x)) =
       tbl_numbers d @ [\<lparr>ID = fresh_id w, Number = to_int32 x\<rparr>]"
    using assms(2,3) by (simp add: tbl_AddNumber)
  have b: "sint (to_int32 x) = (sint x + 2 ^ 31) mod 2 ^ 32 - 2 ^ 31"
    by (rule sint_to_int32_wrap)
  have c: "sint (to_int32 x) \<noteq> sint x"
    using assms(1) sint_int32_range [of "to_int32 x"] by auto
  let ?nums = "map (\<lambda>num. to_int (Number num))
           (order_by_number (row_order w)
              (tbl_numbers d @ [\<lparr>ID = fresh_id w, Number = to_int32 x\<rparr>]))"
  have resp: "fst (AddNumber w d x) = (AddNumber200JSONResponse ?nums, None)"
    using assms(2,3,4) by (rule AddNumber_200)
  have inn: "to_int (to_int32 x) \<in> set ?nums"
    by simp
  have out: "x \<notin> set ?nums"
  proof
    assume "x \<in> set ?nums"
    then obtain y where "x = to_int y" by auto
    then have "- (2 ^ 31) \<le> sint x \<and> sint x < 2 ^ 31"
      using to_int_in_range [of y] by simp
    with assms(1) show False by simp
  qed
  from resp inn out have "\<exists>nums. fst (AddNumber w d x) = (AddNumber200JSONResponse nums, None)
         \<and> to_int (to_int32 x) \<in> set nums \<and> x \<notin> set nums"
    by blast
  with a b c show ?thesis by blast
qed

theorem out_of_range_value_is_narrowed_witness:
  "(sint (2147483648 :: int64) < - (2 ^ 31) \<or> 2 ^ 31 \<le> sint (2147483648 :: int64))
   \<and> tbl_numbers (snd (AddNumber (quiet 1) empty_db 2147483648)) = [\<lparr>ID = 1, Number = - 2147483648\<rparr>]
   \<and> sint (to_int32 2147483648) = - 2147483648
   \<and> (\<exists>nums. fst (AddNumber (quiet 1) empty_db 2147483648) = (AddNumber200JSONResponse nums, None)
         \<and> - 2147483648 \<in> set nums \<and> 2147483648 \<notin> set nums)"
proof -
  have h: "sint (2147483648 :: int64) < - (2 ^ 31) \<or> 2 ^ 31 \<le> sint (2147483648 :: int64)"
    by simp
  have w: "insert_fault (quiet 1) = None"
    "fresh_id (quiet 1) \<notin> ID ` set (tbl_numbers empty_db)"
    "select_fault (quiet 1) = None"
    by (simp_all add: quiet_def empty_db_def)
  have n: "to_int32 2147483648 = - 2147483648" "to_int (- 2147483648) = - 2147483648"
    by (simp_all add: to_int32_def to_int_def)
  show ?thesis
    using h out_of_range_value_is_narrowed [OF h w]
    by (simp add: quiet_def empty_db_def n)
qed

end
